theory Spec2Isabelle
  imports Complex_Main "HOL-Library.Sublist" "HOL-Library.AList"
begin

section \<open>Data model (types.ts)\<close>

datatype OperationType = ADDITION | SUBTRACTION | MULTIPLICATION | DIVISION | ALL_mix

datatype GameState = MENU | PLAYING | RESULTS

text \<open>
  JavaScript numbers that hold integers are modelled as \<open>int\<close>; an optional field
  (\<open>userAnswer?: number\<close>) is an \<open>option\<close>, \<open>None\<close> standing for \<open>undefined\<close>.
  The field \<open>id\<close> of the source is called \<open>id_q\<close>, since \<open>id\<close> is the identity
  function of HOL.
\<close>

record Question =
  id_q :: string
  num1 :: int
  num2 :: int
  operation :: OperationType
  correctAnswer :: int
  userAnswer :: "int option"
  isRetry :: bool

record GameConfig =
  cfg_operation :: OperationType
  targetNumber :: "int option"
  durationPerQuestion :: int

record SessionStats =
  totalQuestions :: nat
  correctCount :: nat
  wrongCount :: nat
  startTime :: int
  endTime :: int
  averageTimePerQuestion :: real

section \<open>Number to string\<close>

text \<open>
  \<open>Number.prototype.toString\<close> on an integer: the decimal digits, with a leading minus
  sign for a negative number.
\<close>

definition digitChar :: "nat \<Rightarrow> char" where
  "digitChar d = ''0123456789'' ! (d mod 10)"

fun natToString :: "nat \<Rightarrow> string" where
  "natToString n =
     (if n < 10 then [digitChar n] else natToString (n div 10) @ [digitChar (n mod 10)])"

declare natToString.simps [simp del]

definition toString :: "int \<Rightarrow> string" where
  "toString i = (if i < 0 then CHR ''-'' # natToString (nat (- i)) else natToString (nat i))"

section \<open>Question generator (services/gameService.ts)\<close>

text \<open>
  \<open>Math.random()\<close> returns a number \<open>r\<close> with \<open>0 \<le> r < 1\<close>. The type \<open>unit_random\<close>
  holds exactly these values (as reals: the rounding of the floating-point product
  \<open>r * 10\<close> is not modelled), and \<open>random_value\<close> reads one. The random source is the
  sequence of the values that the successive calls return; the generator threads the
  number of calls made so far. \<open>Date.now()\<close> inside the loop is the function \<open>clock\<close> of
  the iteration index.
\<close>

typedef unit_random = "{r :: real. 0 \<le> r \<and> r < 1}"
  by (rule exI [of _ 0]) simp

setup_lifting type_definition_unit_random

lift_definition random_value :: "unit_random \<Rightarrow> real" is "\<lambda>r. r" .

lift_definition random_zero :: unit_random is 0
  by simp

lift_definition random_half :: unit_random is "1 / 2"
  by simp

type_synonym rng = "nat \<Rightarrow> unit_random"

definition Math_random :: "rng \<Rightarrow> nat \<Rightarrow> real" where
  "Math_random rs k = random_value (rs k)"

definition operations :: "OperationType list" where
  "operations = [ADDITION, SUBTRACTION, MULTIPLICATION, DIVISION]"

text \<open>
  \<open>pickOperation\<close> is lines 17--20 of gameService.ts: when the configured operation
  is \<open>OperationType.ALL\<close> (here \<open>ALL_mix\<close>, since \<open>ALL\<close> is a binder of HOL) one
  random number selects an entry of \<open>operations\<close>. The index \<open>\<lfloor>r * 4\<rfloor>\<close> is below 4 for
  every \<open>r < 1\<close> (lemma \<open>pickOperation_in_operations\<close>), so the read is in range.
\<close>

definition pickOperation :: "OperationType \<Rightarrow> rng \<Rightarrow> nat \<Rightarrow> OperationType \<times> nat" where
  "pickOperation opn rs k =
     (if opn = ALL_mix
      then (operations ! nat \<lfloor>Math_random rs k * real (length operations)\<rfloor>, k + 1)
      else (opn, k))"

text \<open>Lines 30--38: the operands. \<open>Math.floor(Math.random() * 10) + 1\<close> is 1 to 10.\<close>

definition pickOperands :: "int option \<Rightarrow> rng \<Rightarrow> nat \<Rightarrow> (int \<times> int) \<times> nat" where
  "pickOperands target rs k =
     (case target of
        Some t \<Rightarrow> ((\<lfloor>Math_random rs k * 10\<rfloor> + 1, t), k + 1)
      | None \<Rightarrow> ((\<lfloor>Math_random rs k * 10\<rfloor> + 1, \<lfloor>Math_random rs (k + 1) * 10\<rfloor> + 1), k + 2))"

text \<open>
  Lines 40--60: the \<open>switch\<close>, returning \<open>(n1, n2, ans)\<close>. No case of the switch
  matches \<open>ALL_mix\<close>, which leaves the operands as drawn and \<open>ans = 0\<close>.
\<close>

fun computeAnswer :: "OperationType \<Rightarrow> int \<Rightarrow> int \<Rightarrow> int \<times> int \<times> int" where
  "computeAnswer ADDITION n1 n2 = (n1, n2, n1 + n2)"
| "computeAnswer SUBTRACTION n1 n2 =
     (if n1 < n2 then (n2, n1, n2 - n1) else (n1, n2, n1 - n2))"
| "computeAnswer MULTIPLICATION n1 n2 = (n1, n2, n1 * n2)"
| "computeAnswer DIVISION n1 n2 = (n1 * n2, n2, n1)"
| "computeAnswer ALL_mix n1 n2 = (n1, n2, 0)"

text \<open>
  Lines 62--65: for \<open>+\<close> and \<open>\<times>\<close> a further random number decides whether the operands
  are displayed in swapped order (\<open>&&\<close> draws it only for these two operations).
\<close>

definition randomizeOrder :: "OperationType \<Rightarrow> int \<Rightarrow> int \<Rightarrow> rng \<Rightarrow> nat \<Rightarrow> (int \<times> int) \<times> nat" where
  "randomizeOrder opn n1 n2 rs k =
     (if opn = ADDITION \<or> opn = MULTIPLICATION
      then (if Math_random rs k > 0.5 then (n2, n1) else (n1, n2), k + 1)
      else ((n1, n2), k))"

text \<open>One iteration of the loop: the question pushed, and the number of random draws made.\<close>

definition generateQuestion ::
  "OperationType \<Rightarrow> int option \<Rightarrow> rng \<Rightarrow> (nat \<Rightarrow> int) \<Rightarrow> nat \<Rightarrow> nat \<Rightarrow> Question \<times> nat" where
  "generateQuestion opn target rs clock i k =
     (let (opr, k1) = pickOperation opn rs k;
          ((a, b), k2) = pickOperands target rs k1;
          (n1, n2, ans) = computeAnswer opr a b;
          ((m1, m2), k3) = randomizeOrder opr n1 n2 rs k2
      in (\<lparr> id_q = ''q-'' @ toString (clock i) @ ''-'' @ natToString i,
             num1 = m1, num2 = m2, operation = opr, correctAnswer = ans,
             userAnswer = None, isRetry = False \<rparr>, k3))"

text \<open>The \<open>for\<close> loop, from \<open>i\<close> up to \<open>count\<close>, appending to \<open>questions\<close>.\<close>

function generateLoop ::
  "OperationType \<Rightarrow> int option \<Rightarrow> nat \<Rightarrow> rng \<Rightarrow> (nat \<Rightarrow> int) \<Rightarrow> nat \<Rightarrow> nat \<Rightarrow> Question list
     \<Rightarrow> Question list" where
  "generateLoop opn target count rs clock i k questions =
     (if i < count
      then (let (q, k') = generateQuestion opn target rs clock i k
            in generateLoop opn target count rs clock (i + 1) k' (questions @ [q]))
      else questions)"
  by pat_completeness auto
termination
  by (relation "measure (\<lambda>(opn, target, count, rs, clock, i, k, questions). count - i)") auto

declare generateLoop.simps [simp del]

text \<open>The targets that the menu offers: none, or a number from 1 to 10.\<close>

definition validTarget :: "int option \<Rightarrow> bool" where
  "validTarget target = (case target of None \<Rightarrow> True | Some t \<Rightarrow> 1 \<le> t \<and> t \<le> 10)"

definition generateQuestionBatch ::
  "OperationType \<Rightarrow> int option \<Rightarrow> nat \<Rightarrow> rng \<Rightarrow> (nat \<Rightarrow> int) \<Rightarrow> Question list" where
  "generateQuestionBatch opn target count rs clock =
     generateLoop opn target count rs clock 0 0 []"

section \<open>The application state (App component)\<close>

datatype Feedback = Correct | Wrong | Timeout

text \<open>
  \<open>processAnswer\<close> schedules \<open>nextQuestion\<close> with \<open>setTimeout\<close>. The \<open>nextQuestion\<close>
  that runs later is the function of the render (the call of \<open>App\<close>) in which
  \<open>processAnswer\<close> was created, and it reads \<open>currentQIndex\<close> and \<open>questionQueue\<close> as
  the \<open>const\<close> bindings of that call. A state setter does not change these bindings: it
  schedules a later render with bindings of its own; and \<open>[...questionQueue]\<close> copies
  the array, so that the \<open>push\<close> of the retry leaves the array of the render as it is.
  \<open>processAnswer\<close> is memoised by \<open>useCallback\<close> on exactly these two values, so they
  are the values of the render that handles the event, before any \<open>setQuestionQueue\<close>
  of the handler takes effect. A \<open>Closure\<close> records them; the state holds the list of
  the callbacks that are scheduled and have not run yet. The source never calls
  \<open>clearTimeout\<close>.
\<close>

record Closure =
  cl_questionQueue :: "Question list"
  cl_currentQIndex :: nat

text \<open>
  The state of \<open>App\<close>: its \<open>useState\<close> cells and the pending timeouts. The reward image
  and its loading flag are left out (they depend on an external service and no handler
  below reads them).
\<close>

record App =
  gameState :: GameState
  config :: GameConfig
  questionQueue :: "Question list"
  currentQIndex :: nat
  userInput :: string
  feedback :: "Feedback option"
  sessionStats :: SessionStats
  timeouts :: "Closure list"

definition initialApp :: App where
  "initialApp =
     \<lparr> gameState = MENU,
       config = \<lparr> cfg_operation = MULTIPLICATION, targetNumber = None, durationPerQuestion = 10 \<rparr>,
       questionQueue = [], currentQIndex = 0, userInput = [], feedback = None,
       sessionStats = \<lparr> totalQuestions = 0, correctCount = 0, wrongCount = 0, startTime = 0,
                        endTime = 0, averageTimePerQuestion = 0 \<rparr>,
       timeouts = [] \<rparr>"

text \<open>\<open>questionQueue[currentQIndex]\<close>: \<open>undefined\<close> (here \<open>None\<close>) outside the array.\<close>

definition currentQ :: "App \<Rightarrow> Question option" where
  "currentQ s =
     (if currentQIndex s < length (questionQueue s)
      then Some (questionQueue s ! currentQIndex s) else None)"

subsection \<open>Setup\<close>

text \<open>
  \<open>startGame(customQueue?)\<close>; \<open>batch\<close> is the result of the call of
  \<open>generateQuestionBatch\<close>, which is made only without a custom queue.
\<close>

definition startGame :: "App \<Rightarrow> Question list option \<Rightarrow> Question list \<Rightarrow> int \<Rightarrow> App" where
  "startGame s customQueue batch now =
     (let questions = (case customQueue of Some q \<Rightarrow> q | None \<Rightarrow> batch)
      in s\<lparr> questionQueue := questions, currentQIndex := 0, userInput := [], feedback := None,
            sessionStats := \<lparr> totalQuestions = length questions, correctCount = 0, wrongCount = 0,
                               startTime = now, endTime = 0, averageTimePerQuestion = 0 \<rparr>,
            gameState := PLAYING \<rparr>)"

definition selectOperation :: "App \<Rightarrow> OperationType \<Rightarrow> App" where
  "selectOperation s opn = s\<lparr> config := (config s)\<lparr> cfg_operation := opn \<rparr> \<rparr>"

definition selectTarget :: "App \<Rightarrow> int option \<Rightarrow> App" where
  "selectTarget s n = s\<lparr> config := (config s)\<lparr> targetNumber := n \<rparr> \<rparr>"

definition selectDuration :: "App \<Rightarrow> int \<Rightarrow> App" where
  "selectDuration s sec = s\<lparr> config := (config s)\<lparr> durationPerQuestion := sec \<rparr> \<rparr>"

subsection \<open>Gameplay\<close>

definition finishGame :: "App \<Rightarrow> int \<Rightarrow> App" where
  "finishGame s now =
     s\<lparr> sessionStats := (sessionStats s)\<lparr> endTime := now \<rparr>, gameState := RESULTS \<rparr>"

text \<open>
  \<open>nextQuestion\<close>, run in the state \<open>s\<close> with the constants of its closure \<open>c\<close>. The
  comparison is made on integers, as \<open>length - 1\<close> is \<open>-1\<close> for an empty array;
  \<open>setCurrentQIndex(prev => prev + 1)\<close> increments the index of the state.
\<close>

definition nextQuestion :: "Closure \<Rightarrow> App \<Rightarrow> int \<Rightarrow> App" where
  "nextQuestion c s now =
     (let s1 = s\<lparr> feedback := None, userInput := [] \<rparr>
      in if int (cl_currentQIndex c) \<ge> int (length (cl_questionQueue c)) - 1
         then finishGame s1 now
         else s1\<lparr> currentQIndex := currentQIndex s1 + 1 \<rparr>)"

definition isCorrect :: "Question \<Rightarrow> int option \<Rightarrow> bool \<Rightarrow> bool" where
  "isCorrect cq userVal isTimeout =
     (let valToCheck = (case userVal of Some v \<Rightarrow> v | None \<Rightarrow> - 999)
      in \<not> isTimeout \<and> valToCheck = correctAnswer cq)"

definition retryQ :: "Question \<Rightarrow> int \<Rightarrow> Question" where
  "retryQ cq now =
     cq\<lparr> userAnswer := None, isRetry := True, id_q := id_q cq @ ''-retry-'' @ toString now \<rparr>"

text \<open>
  \<open>processAnswer(userVal, isTimeout)\<close> in the state \<open>s\<close> at time \<open>now\<close>; the closure
  scheduled is the one of the render, whose queue is the one before the retry is pushed.
\<close>

definition processAnswer :: "App \<Rightarrow> int option \<Rightarrow> bool \<Rightarrow> int \<Rightarrow> App" where
  "processAnswer s userVal isTimeout now =
     (case currentQ s of
        None \<Rightarrow> s
      | Some cq \<Rightarrow>
          (let render = \<lparr> cl_questionQueue = questionQueue s, cl_currentQIndex = currentQIndex s \<rparr>
           in if isCorrect cq userVal isTimeout
              then s\<lparr> feedback := Some Correct,
                      sessionStats := (sessionStats s)\<lparr> correctCount := correctCount (sessionStats s) + 1 \<rparr>,
                      timeouts := timeouts s @ [render] \<rparr>
              else s\<lparr> feedback := Some (if isTimeout then Timeout else Wrong),
                      sessionStats := (sessionStats s)\<lparr> wrongCount := wrongCount (sessionStats s) + 1 \<rparr>,
                      questionQueue := questionQueue s @ [retryQ cq now],
                      timeouts := timeouts s @ [render] \<rparr>))"

text \<open>
  \<open>parseInt\<close> on the strings that \<open>handleInput\<close> builds from the digit keys: the value of
  the leading decimal digits. (JavaScript gives \<open>NaN\<close> when there is no leading digit
  and accepts white space, a sign and a radix prefix; no key of the keypad produces
  such a string.)
\<close>

definition isDigit :: "char \<Rightarrow> bool" where
  "isDigit c = (c \<in> set ''0123456789'')"

definition digitVal :: "char \<Rightarrow> int" where
  "digitVal c = int (of_char c) - 48"

definition parseInt :: "string \<Rightarrow> int" where
  "parseInt str = foldl (\<lambda>a c. 10 * a + digitVal c) 0 (takeWhile isDigit str)"

text \<open>
  \<open>handleInput(num)\<close>. \<open>updatedQueue[currentQIndex].userAnswer = userVal\<close> writes into the
  question object itself, which the array of the render shares with \<open>updatedQueue\<close>;
  \<open>processAnswer\<close> therefore reads the answered question, and the queue it copies for
  the retry holds the answer too. Its \<open>setQuestionQueue\<close> is the later one and wins.
\<close>

definition handleInput :: "App \<Rightarrow> string \<Rightarrow> int \<Rightarrow> App" where
  "handleInput s num now =
     (if feedback s \<noteq> None then s
      else case currentQ s of
        None \<Rightarrow> s
      | Some cq \<Rightarrow>
          (let correctStr = toString (correctAnswer cq)
           in if length (userInput s) \<ge> length correctStr then s
              else (let nextInput = userInput s @ num;
                        s1 = s\<lparr> userInput := nextInput \<rparr>
                    in if length nextInput = length correctStr
                       then (let userVal = parseInt nextInput;
                                 updatedQueue =
                                   (questionQueue s)[currentQIndex s := cq\<lparr> userAnswer := Some userVal \<rparr>]
                             in processAnswer (s1\<lparr> questionQueue := updatedQueue \<rparr>)
                                  (Some userVal) False now)
                       else s1)))"

definition handleDelete :: "App \<Rightarrow> App" where
  "handleDelete s = (if feedback s \<noteq> None then s else s\<lparr> userInput := butlast (userInput s) \<rparr>)"

subsection \<open>Results and review\<close>

text \<open>\<open>id.split('-retry')[0]\<close>: the part of the string before the first \<open>-retry\<close>.\<close>

fun beforeFirst :: "string \<Rightarrow> string \<Rightarrow> string" where
  "beforeFirst sep [] = []"
| "beforeFirst sep (c # cs) = (if prefix sep (c # cs) then [] else c # beforeFirst sep cs)"

definition baseId :: "string \<Rightarrow> string" where
  "baseId i = beforeFirst ''-retry'' i"

text \<open>
  A JavaScript \<open>Map\<close> is an association list in insertion order: \<open>has\<close> looks the key
  up, \<open>set\<close> replaces the value of a key in place or appends a new entry, \<open>values()\<close>
  lists the values in order.
\<close>

definition map_has :: "(string \<times> Question) list \<Rightarrow> string \<Rightarrow> bool" where
  "map_has m k = (map_of m k \<noteq> None)"

definition map_set :: "(string \<times> Question) list \<Rightarrow> string \<Rightarrow> Question \<Rightarrow> (string \<times> Question) list" where
  "map_set m k v = AList.update k v m"

definition answeredWrong :: "Question \<Rightarrow> bool" where
  "answeredWrong q = (userAnswer q \<noteq> None \<and> userAnswer q \<noteq> Some (correctAnswer q))"

text \<open>The \<open>forEach\<close> of the results screen.\<close>

definition resultsWrongQuestionsMap :: "Question list \<Rightarrow> (string \<times> Question) list" where
  "resultsWrongQuestionsMap queue =
     foldl (\<lambda>m q. if answeredWrong q
                   then (if \<not> map_has m (baseId (id_q q)) then map_set m (id_q q) q else m)
                   else m) [] queue"

definition resultsWrongQuestions :: "Question list \<Rightarrow> Question list" where
  "resultsWrongQuestions queue = map snd (resultsWrongQuestionsMap queue)"

text \<open>The \<open>forEach\<close> of \<open>startReview\<close>, which stores a reset copy of the question.\<close>

definition reviewWrongQuestionsMap :: "Question list \<Rightarrow> (string \<times> Question) list" where
  "reviewWrongQuestionsMap queue =
     foldl (\<lambda>m q. if answeredWrong q
                   then (if \<not> map_has m (baseId (id_q q))
                         then map_set m (id_q q)
                                (q\<lparr> id_q := ''review-'' @ id_q q, userAnswer := None, isRetry := False \<rparr>)
                         else m)
                   else m) [] queue"

definition startReview :: "App \<Rightarrow> int \<Rightarrow> App" where
  "startReview s now =
     (let wrongQuestions = map snd (reviewWrongQuestionsMap (questionQueue s))
      in if length wrongQuestions > 0 then startGame s (Some wrongQuestions) [] now else s)"

text \<open>
  The figures of the results screen: \<open>duration\<close> in milliseconds and \<open>avgTime\<close> in
  seconds, as a real number (the source divides floating-point numbers). With
  \<open>totalQuestions = 0\<close> the division gives \<open>NaN\<close> or \<open>Infinity\<close>, here \<open>None\<close>.
\<close>

definition duration :: "App \<Rightarrow> int" where
  "duration s = endTime (sessionStats s) - startTime (sessionStats s)"

definition avgTime :: "App \<Rightarrow> real option" where
  "avgTime s =
     (if totalQuestions (sessionStats s) = 0 then None
      else Some ((real_of_int (duration s) / real (totalQuestions (sessionStats s))) / 1000))"

section \<open>Events\<close>

text \<open>The keys of the keypad (components/Keypad.tsx), in the order of its \<open>keys\<close> array.\<close>

datatype Key = K1 | K2 | K3 | K4 | K5 | K6 | K7 | K8 | K9 | Kdot | K0

fun keyStr :: "Key \<Rightarrow> string" where
  "keyStr K1 = ''1''"
| "keyStr K2 = ''2''"
| "keyStr K3 = ''3''"
| "keyStr K4 = ''4''"
| "keyStr K5 = ''5''"
| "keyStr K6 = ''6''"
| "keyStr K7 = ''7''"
| "keyStr K8 = ''8''"
| "keyStr K9 = ''9''"
| "keyStr Kdot = ''.''"
| "keyStr K0 = ''0''"

text \<open>
  What can happen to the application: a button of the screen shown is pressed, the
  countdown of \<open>CircularTimer\<close> calls \<open>onTimeUp\<close>, or a pending timeout runs. An event
  carries the value of \<open>Date.now()\<close> when its handler reads the clock, and \<open>StartGame\<close>
  the random source and the clock read by the generator. The countdown itself (the
  floating-point \<open>timeLeft\<close> of \<open>CircularTimer\<close>) is not followed: \<open>TimeUp\<close> may happen
  at any moment at which the component can call \<open>onTimeUp\<close>, and a pending timeout may
  run at any moment after it is scheduled.
\<close>

datatype Event =
    SelectOperation OperationType
  | SelectTarget "int option"
  | SelectDuration int
  | StartGame rng "nat \<Rightarrow> int" int
  | ExitToMenu
  | Press Key int
  | DeletePress
  | TimeUp int
  | TimeoutFires nat int
  | StartReview int
  | PlayAgain

definition dropNth :: "nat \<Rightarrow> 'a list \<Rightarrow> 'a list" where
  "dropNth n xs = take n xs @ drop (Suc n) xs"

fun step :: "App \<Rightarrow> Event \<Rightarrow> App" where
  "step s (SelectOperation opn) = selectOperation s opn"
| "step s (SelectTarget n) = selectTarget s n"
| "step s (SelectDuration sec) = selectDuration s sec"
| "step s (StartGame rs clock now) =
     startGame s None
       (generateQuestionBatch (cfg_operation (config s)) (targetNumber (config s)) 10 rs clock) now"
| "step s ExitToMenu = s\<lparr> gameState := MENU \<rparr>"
| "step s (Press k now) = handleInput s (keyStr k) now"
| "step s DeletePress = handleDelete s"
| "step s (TimeUp now) = processAnswer s None True now"
| "step s (TimeoutFires n now) =
     (if n < length (timeouts s)
      then nextQuestion (timeouts s ! n) (s\<lparr> timeouts := dropNth n (timeouts s) \<rparr>) now
      else s)"
| "step s (StartReview now) = startReview s now"
| "step s PlayAgain = s\<lparr> gameState := MENU \<rparr>"

text \<open>
  The events that the rendered screen offers. The menu has buttons for the four
  operations, the targets 1 to 10 and none, and 5 or 10 seconds. The play screen is
  rendered only with a current question; its keypad is disabled while feedback is
  shown and its dot key always; \<open>CircularTimer\<close> is mounted on the play screen only and
  calls \<open>onTimeUp\<close> only while \<open>isPlaying = !feedback\<close>. The results screen offers the
  review only when there are wrong questions. A pending timeout runs whatever the
  screen is. The predicate allows more than the program on one point: on the question
  that follows a timed-out one, \<open>CircularTimer\<close> (whose \<open>timeLeft\<close> is still 0) calls
  \<open>onTimeUp\<close> at once, so that the keys offered here are not pressed there. The
  invariants below hold of the wider set of runs; in the sessions given as concrete
  inputs a timed-out question is followed by a \<open>TimeUp\<close> on the next one.
\<close>

fun enabled :: "App \<Rightarrow> Event \<Rightarrow> bool" where
  "enabled s (SelectOperation opn) = (gameState s = MENU \<and> opn \<in> set operations)"
| "enabled s (SelectTarget n) =
     (gameState s = MENU \<and> (case n of None \<Rightarrow> True | Some t \<Rightarrow> 1 \<le> t \<and> t \<le> 10))"
| "enabled s (SelectDuration sec) = (gameState s = MENU \<and> (sec = 5 \<or> sec = 10))"
| "enabled s (StartGame rs clock now) = (gameState s = MENU)"
| "enabled s ExitToMenu = (gameState s = PLAYING \<and> currentQ s \<noteq> None)"
| "enabled s (Press k now) =
     (gameState s = PLAYING \<and> currentQ s \<noteq> None \<and> feedback s = None \<and> k \<noteq> Kdot)"
| "enabled s DeletePress = (gameState s = PLAYING \<and> currentQ s \<noteq> None \<and> feedback s = None)"
| "enabled s (TimeUp now) = (gameState s = PLAYING \<and> currentQ s \<noteq> None \<and> feedback s = None)"
| "enabled s (TimeoutFires n now) = (n < length (timeouts s))"
| "enabled s (StartReview now) =
     (gameState s = RESULTS \<and> resultsWrongQuestions (questionQueue s) \<noteq> [])"
| "enabled s PlayAgain = (gameState s = RESULTS)"

inductive reachable :: "App \<Rightarrow> bool" where
  reachable_init: "reachable initialApp"
| reachable_step: "reachable s \<Longrightarrow> enabled s e \<Longrightarrow> reachable (step s e)"

definition run :: "App \<Rightarrow> Event list \<Rightarrow> App" where
  "run s evs = foldl step s evs"

text \<open>
  A submission is an event that has an answer scored: the key that completes the
  digits of the answer, or the end of the countdown, on a current question.
\<close>

fun submits :: "App \<Rightarrow> Event \<Rightarrow> bool" where
  "submits s (Press k now) =
     (case currentQ s of
        None \<Rightarrow> False
      | Some cq \<Rightarrow> feedback s = None \<and>
          length (userInput s) + length (keyStr k) = length (toString (correctAnswer cq)))"
| "submits s (TimeUp now) = (currentQ s \<noteq> None)"
| "submits s e = False"

fun submissions :: "App \<Rightarrow> Event list \<Rightarrow> nat" where
  "submissions s [] = 0"
| "submissions s (e # evs) = (if submits s e then 1 else 0) + submissions (step s e) evs"

text \<open>The events of a session in play: neither a new session nor a change of screen.\<close>

fun inSession :: "Event \<Rightarrow> bool" where
  "inSession (Press k now) = True"
| "inSession DeletePress = True"
| "inSession (TimeUp now) = True"
| "inSession (TimeoutFires n now) = True"
| "inSession e = False"

section \<open>Sessions and invariants\<close>

text \<open>The events that start a session: \<open>startGame\<close> is called by these two only.\<close>

fun startsSession :: "Event \<Rightarrow> bool" where
  "startsSession (StartGame rs clock now) = True"
| "startsSession (StartReview now) = True"
| "startsSession e = False"

text \<open>Every event of the list is offered by the screen at the moment it happens.\<close>

fun runEnabled :: "App \<Rightarrow> Event list \<Rightarrow> bool" where
  "runEnabled s [] = True"
| "runEnabled s (e # evs) = (enabled s e \<and> runEnabled (step s e) evs)"

text \<open>
  The input buffer is never longer than the digits of the current answer, and is
  shorter while the application waits for input.
\<close>

definition inputBounded :: "App \<Rightarrow> bool" where
  "inputBounded s =
     (case currentQ s of
        None \<Rightarrow> True
      | Some cq \<Rightarrow>
          length (userInput s) \<le> length (toString (correctAnswer cq)) \<and>
          (feedback s = None \<longrightarrow> length (userInput s) < length (toString (correctAnswer cq))))"

text \<open>
  The questions after the current one have no answer recorded, nor has the current one
  while the play screen waits for input.
\<close>

definition unansweredAhead :: "App \<Rightarrow> bool" where
  "unansweredAhead s =
     (\<forall>j < length (questionQueue s).
        currentQIndex s < j \<or> (j = currentQIndex s \<and> feedback s = None \<and> gameState s = PLAYING)
        \<longrightarrow> userAnswer (questionQueue s ! j) = None)"





section \<open>Concrete inputs\<close>

text \<open>
  Random sources that always return one half, or always 0, and a clock that stands
  at 0.
\<close>

definition rsHalf :: rng where
  "rsHalf = (\<lambda>k. random_half)"

definition rsZero :: rng where
  "rsZero = (\<lambda>k. random_zero)"

definition clock0 :: "nat \<Rightarrow> int" where
  "clock0 = (\<lambda>i. 0)"

text \<open>
  A session started from the menu with the default configuration (multiplication, no
  target): with the random source at 0 its ten questions are all \<open>1 \<times> 1\<close>, with the
  ids \<open>q-0-0\<close> to \<open>q-0-9\<close>.
\<close>

definition session0 :: App where
  "session0 = step initialApp (StartGame rsZero clock0 0)"

text \<open>Nine questions answered 1, each followed by the end of its feedback delay.\<close>

definition nineCorrect :: "Event list" where
  "nineCorrect =
     [Press K1 5, TimeoutFires 0 5, Press K1 5, TimeoutFires 0 5, Press K1 5, TimeoutFires 0 5,
      Press K1 5, TimeoutFires 0 5, Press K1 5, TimeoutFires 0 5, Press K1 5, TimeoutFires 0 5,
      Press K1 5, TimeoutFires 0 5, Press K1 5, TimeoutFires 0 5, Press K1 5, TimeoutFires 0 5]"

text \<open>The tenth and last question is then answered 2.\<close>

definition lastWrong :: "Event list" where
  "lastWrong = nineCorrect @ [Press K2 6, TimeoutFires 0 6]"

text \<open>
  The first question times out, and so does the second at once: when it is rendered
  the \<open>timeLeft\<close> of \<open>CircularTimer\<close> is still 0, and the component calls \<open>onTimeUp\<close>
  before it is reset. The other eight questions are answered 1; the first retries of
  both timed-out questions are answered 2, and so is the second retry of the first
  question; the second retry of the second question and the third retry of the first
  are answered 1.
\<close>

definition twoFailedRetries :: "Event list" where
  "twoFailedRetries =
     [TimeUp 1, TimeoutFires 0 1, TimeUp 2, TimeoutFires 0 2,
      Press K1 3, TimeoutFires 0 3, Press K1 3, TimeoutFires 0 3, Press K1 3, TimeoutFires 0 3,
      Press K1 3, TimeoutFires 0 3, Press K1 3, TimeoutFires 0 3, Press K1 3, TimeoutFires 0 3,
      Press K1 3, TimeoutFires 0 3, Press K1 3, TimeoutFires 0 3,
      Press K2 4, TimeoutFires 0 4, Press K2 5, TimeoutFires 0 5, Press K2 6, TimeoutFires 0 6,
      Press K1 7, TimeoutFires 0 7, Press K1 8, TimeoutFires 0 8]"

text \<open>
  The first question is answered 2, the other nine are answered 1, and so is the retry
  of the first.
\<close>

definition oneRetry :: "Event list" where
  "oneRetry =
     [Press K2 1, TimeoutFires 0 1,
      Press K1 2, TimeoutFires 0 2, Press K1 2, TimeoutFires 0 2, Press K1 2, TimeoutFires 0 2,
      Press K1 2, TimeoutFires 0 2, Press K1 2, TimeoutFires 0 2, Press K1 2, TimeoutFires 0 2,
      Press K1 2, TimeoutFires 0 2, Press K1 2, TimeoutFires 0 2, Press K1 2, TimeoutFires 0 2,
      Press K1 7, TimeoutFires 0 7]"


text \<open>The player answers and leaves for the menu while the feedback is shown.\<close>

definition answerAndExit :: "Event list" where
  "answerAndExit = [Press K1 5, ExitToMenu]"

section \<open>Properties of the question generator\<close>

lemma Math_random_range: "0 \<le> Math_random rs k \<and> Math_random rs k < 1"
  using Rep_unit_random [of "rs k"] by (simp add: Math_random_def random_value.rep_eq)

lemma Math_random_rsHalf: "Math_random rsHalf k = 1 / 2"
  by (simp add: Math_random_def rsHalf_def random_value.rep_eq random_half.rep_eq)

lemma Math_random_rsZero: "Math_random rsZero k = 0"
  by (simp add: Math_random_def rsZero_def random_value.rep_eq random_zero.rep_eq)

lemma natToString_small: "n < 10 \<Longrightarrow> natToString n = [digitChar n]"
  by (simp add: natToString.simps)

lemmas eval_generate =
  generateQuestionBatch_def generateLoop.simps generateQuestion_def pickOperation_def
  pickOperands_def randomizeOrder_def toString_def natToString_small digitChar_def

lemma floor_random_10:
  "1 \<le> \<lfloor>Math_random rs k * 10\<rfloor> + 1 \<and> \<lfloor>Math_random rs k * 10\<rfloor> + 1 \<le> 10"
proof -
  have r: "0 \<le> Math_random rs k" "Math_random rs k < 1"
    using Math_random_range by auto
  have "0 \<le> \<lfloor>Math_random rs k * 10\<rfloor>" using r by simp
  moreover have "\<lfloor>Math_random rs k * 10\<rfloor> < 10" using r by (simp add: floor_less_iff)
  ultimately show ?thesis by simp
qed

lemma pickOperation_in_operations:
  "fst (pickOperation ALL_mix rs k) \<in> set operations"
proof -
  have r: "0 \<le> Math_random rs k" "Math_random rs k < 1"
    using Math_random_range by auto
  have lo: "0 \<le> \<lfloor>Math_random rs k * 4\<rfloor>" using r by simp
  have hi: "\<lfloor>Math_random rs k * 4\<rfloor> < 4" using r by (simp add: floor_less_iff)
  have "nat \<lfloor>Math_random rs k * 4\<rfloor> < 4" using lo hi by linarith
  then have "nat \<lfloor>Math_random rs k * real (length operations)\<rfloor> < length operations"
    by (simp add: operations_def)
  then have "operations ! nat \<lfloor>Math_random rs k * real (length operations)\<rfloor> \<in> set operations"
    by (rule nth_mem)
  then show ?thesis
    by (simp add: pickOperation_def)
qed

lemma pickOperands_range:
  assumes "validTarget target"
  shows "1 \<le> fst (fst (pickOperands target rs k)) \<and> fst (fst (pickOperands target rs k)) \<le> 10 \<and>
         1 \<le> snd (fst (pickOperands target rs k)) \<and> snd (fst (pickOperands target rs k)) \<le> 10"
  using assms floor_random_10 [of rs k] floor_random_10 [of rs "k + 1"]
  by (auto simp: pickOperands_def validTarget_def split: option.splits)

lemma generateQuestion_division:
  assumes "validTarget target"
    and "operation (fst (generateQuestion opn target rs clock i k)) = DIVISION"
  shows "num2 (fst (generateQuestion opn target rs clock i k)) \<noteq> 0 \<and>
         num1 (fst (generateQuestion opn target rs clock i k)) =
           correctAnswer (fst (generateQuestion opn target rs clock i k)) *
           num2 (fst (generateQuestion opn target rs clock i k))"
proof -
  obtain opr k1 where po: "pickOperation opn rs k = (opr, k1)"
    by (cases "pickOperation opn rs k")
  obtain a b k2 where pp: "pickOperands target rs k1 = ((a, b), k2)"
    by (metis surj_pair)
  have rng: "1 \<le> a \<and> a \<le> 10 \<and> 1 \<le> b \<and> b \<le> 10"
    using pickOperands_range [OF assms(1), of rs k1] pp by simp
  have opr: "opr = DIVISION"
    using assms(2) po pp by (simp add: generateQuestion_def split: prod.splits)
  show ?thesis
    using rng by (simp add: generateQuestion_def po pp opr randomizeOrder_def)
qed

lemma generateQuestion_nonneg:
  assumes "validTarget target"
  shows "0 \<le> correctAnswer (fst (generateQuestion opn target rs clock i k)) \<and>
         (operation (fst (generateQuestion opn target rs clock i k)) = SUBTRACTION \<longrightarrow>
            num2 (fst (generateQuestion opn target rs clock i k))
              \<le> num1 (fst (generateQuestion opn target rs clock i k)) \<and>
            correctAnswer (fst (generateQuestion opn target rs clock i k)) =
              num1 (fst (generateQuestion opn target rs clock i k)) -
              num2 (fst (generateQuestion opn target rs clock i k)))"
proof -
  obtain opr k1 where po: "pickOperation opn rs k = (opr, k1)"
    by (cases "pickOperation opn rs k")
  obtain a b k2 where pp: "pickOperands target rs k1 = ((a, b), k2)"
    by (metis surj_pair)
  have rng: "1 \<le> a \<and> a \<le> 10 \<and> 1 \<le> b \<and> b \<le> 10"
    using pickOperands_range [OF assms(1), of rs k1] pp by simp
  show ?thesis
    using rng by (cases opr) (auto simp: generateQuestion_def po pp randomizeOrder_def)
qed

lemma generateQuestion_fresh:
  "userAnswer (fst (generateQuestion opn target rs clock i k)) = None \<and>
   \<not> isRetry (fst (generateQuestion opn target rs clock i k))"
  by (simp add: generateQuestion_def split: prod.splits)

lemma generateLoop_set:
  "q \<in> set (generateLoop opn target count rs clock i k questions) \<Longrightarrow>
   q \<in> set questions \<or> (\<exists>j k'. q = fst (generateQuestion opn target rs clock j k'))"
proof (induction opn target count rs clock i k questions rule: generateLoop.induct)
  case (1 opn target count rs clock i k questions)
  show ?case
  proof (cases "i < count")
    case True
    obtain q' k' where g: "generateQuestion opn target rs clock i k = (q', k')"
      by (cases "generateQuestion opn target rs clock i k")
    from "1.prems" True g
    have "q \<in> set (generateLoop opn target count rs clock (i + 1) k' (questions @ [q']))"
      by (simp add: generateLoop.simps [of opn target count rs clock i k questions])
    from "1.IH" [OF True g [symmetric] refl this] g show ?thesis
      by (metis Un_iff fst_conv insert_iff list.set(2) set_append empty_iff list.set(1))
  next
    case False
    with "1.prems" show ?thesis
      by (simp add: generateLoop.simps [of opn target count rs clock i k questions])
  qed
qed

lemma generateLoop_length:
  "length (generateLoop opn target count rs clock i k questions) = length questions + (count - i)"
proof (induction opn target count rs clock i k questions rule: generateLoop.induct)
  case (1 opn target count rs clock i k questions)
  show ?case
  proof (cases "i < count")
    case True
    obtain q' k' where g: "generateQuestion opn target rs clock i k = (q', k')"
      by (cases "generateQuestion opn target rs clock i k")
    from "1.IH" [OF True g [symmetric] refl] True g show ?thesis
      by (simp add: generateLoop.simps [of opn target count rs clock i k questions])
  next
    case False
    then show ?thesis
      by (simp add: generateLoop.simps [of opn target count rs clock i k questions])
  qed
qed

lemma generateQuestionBatch_member:
  assumes "q \<in> set (generateQuestionBatch opn target count rs clock)"
  shows "\<exists>j k'. q = fst (generateQuestion opn target rs clock j k')"
  using generateLoop_set [of q opn target count rs clock 0 0 "[]"] assms
  by (auto simp: generateQuestionBatch_def)

lemma generateQuestionBatch_length:
  "length (generateQuestionBatch opn target count rs clock) = count"
  by (simp add: generateQuestionBatch_def generateLoop_length)

text \<open>
  Claim C5. With a target that is absent or between 1 and 10, every division question
  of a generated batch has a divisor \<open>num2\<close> other than 0 and a dividend
  \<open>num1 = correctAnswer * num2\<close>, so that the quotient \<open>num1 / num2\<close> is exactly the
  integer \<open>correctAnswer\<close>.
\<close>

theorem division_exact:
  assumes "validTarget target"
    and "q \<in> set (generateQuestionBatch opn target count rs clock)"
    and "operation q = DIVISION"
  shows "num2 q \<noteq> 0 \<and> num1 q = correctAnswer q * num2 q \<and>
         real_of_int (num1 q) / real_of_int (num2 q) = real_of_int (correctAnswer q)"
proof -
  from generateQuestionBatch_member [OF assms(2)]
  obtain j k' where q: "q = fst (generateQuestion opn target rs clock j k')"
    by blast
  from generateQuestion_division [OF assms(1), of opn rs clock j k'] assms(3) q
  have a: "num2 q \<noteq> 0" and b: "num1 q = correctAnswer q * num2 q" by auto
  from a b show ?thesis by simp
qed

theorem division_exact_witness:
  "validTarget (Some 7) \<and>
   \<lparr> id_q = ''q-0-0'', num1 = 42, num2 = 7, operation = DIVISION, correctAnswer = 6,
     userAnswer = None, isRetry = False \<rparr>
     \<in> set (generateQuestionBatch DIVISION (Some 7) 1 rsHalf clock0) \<and>
   (42 :: real) / 7 = 6"
proof -
  let ?q = "\<lparr> id_q = ''q-0-0'', num1 = 42, num2 = 7, operation = DIVISION, correctAnswer = 6,
     userAnswer = None, isRetry = False \<rparr>"
  have v: "validTarget (Some 7)" by (simp add: validTarget_def)
  have m: "?q \<in> set (generateQuestionBatch DIVISION (Some 7) 1 rsHalf clock0)"
    by (simp add: eval_generate Math_random_rsHalf clock0_def)
  have d: "operation ?q = DIVISION" by simp
  from division_exact [OF v m d] v m show ?thesis by simp
qed

text \<open>
  Claim C6. With a target that is absent or between 1 and 10, every question of a
  generated batch has a correct answer that is not negative, whatever the operation;
  a subtraction has its larger operand first and \<open>correctAnswer = num1 - num2\<close>.
\<close>

theorem correctAnswer_nonneg:
  assumes "validTarget target"
    and "q \<in> set (generateQuestionBatch opn target count rs clock)"
  shows "0 \<le> correctAnswer q \<and>
         (operation q = SUBTRACTION \<longrightarrow> num2 q \<le> num1 q \<and> correctAnswer q = num1 q - num2 q)"
proof -
  from generateQuestionBatch_member [OF assms(2)]
  obtain j k' where q: "q = fst (generateQuestion opn target rs clock j k')"
    by blast
  from generateQuestion_nonneg [OF assms(1), of opn rs clock j k'] q show ?thesis by simp
qed

theorem correctAnswer_nonneg_witness:
  "validTarget (Some 7) \<and>
   \<lparr> id_q = ''q-0-0'', num1 = 7, num2 = 6, operation = SUBTRACTION, correctAnswer = 1,
     userAnswer = None, isRetry = False \<rparr>
     \<in> set (generateQuestionBatch SUBTRACTION (Some 7) 1 rsHalf clock0) \<and>
   (0 :: int) \<le> 1 \<and> (6 :: int) \<le> 7 \<and> (1 :: int) = 7 - 6"
proof -
  let ?q = "\<lparr> id_q = ''q-0-0'', num1 = 7, num2 = 6, operation = SUBTRACTION, correctAnswer = 1,
     userAnswer = None, isRetry = False \<rparr>"
  have v: "validTarget (Some 7)" by (simp add: validTarget_def)
  have m: "?q \<in> set (generateQuestionBatch SUBTRACTION (Some 7) 1 rsHalf clock0)"
    by (simp add: eval_generate Math_random_rsHalf clock0_def)
  from correctAnswer_nonneg [OF v m] v m show ?thesis by simp
qed

section \<open>Properties of the handlers\<close>

lemma toString_nonempty: "toString i \<noteq> []"
  by (simp add: toString_def natToString.simps [of "nat i"])

lemma length_toString_pos: "0 < length (toString i)"
  using toString_nonempty by simp

lemma length_keyStr: "length (keyStr k) = 1"
  by (cases k) simp_all

lemma currentQ_Some_iff:
  "currentQ s = Some cq \<longleftrightarrow> currentQIndex s < length (questionQueue s) \<and> cq = questionQueue s ! currentQIndex s"
  by (auto simp: currentQ_def)

lemma step_counts_queue:
  assumes "inSession e"
  shows "length (questionQueue (step s e)) + wrongCount (sessionStats s) =
         length (questionQueue s) + wrongCount (sessionStats (step s e))"
  using assms
  by (cases e)
     (auto simp: handleInput_def handleDelete_def processAnswer_def nextQuestion_def finishGame_def
        Let_def split: option.splits)

lemma step_counts_submissions:
  assumes "inSession e"
  shows "correctCount (sessionStats (step s e)) + wrongCount (sessionStats (step s e)) =
         correctCount (sessionStats s) + wrongCount (sessionStats s) + (if submits s e then 1 else 0)"
proof (cases e)
  case (Press k now)
  show ?thesis
    unfolding Press
    by (auto simp: handleInput_def processAnswer_def Let_def currentQ_def length_keyStr split: option.splits)
next
  case (TimeUp now)
  show ?thesis
    unfolding TimeUp by (auto simp: processAnswer_def Let_def split: option.splits)
next
  case (TimeoutFires n now)
  show ?thesis
    unfolding TimeoutFires by (auto simp: nextQuestion_def finishGame_def Let_def)
qed (use assms in \<open>auto simp: handleDelete_def\<close>)

lemma step_keeps_total:
  assumes "\<not> startsSession e"
  shows "totalQuestions (sessionStats (step s e)) = totalQuestions (sessionStats s) \<and>
         startTime (sessionStats (step s e)) = startTime (sessionStats s)"
  using assms
  by (cases e)
     (auto simp: handleInput_def handleDelete_def processAnswer_def nextQuestion_def finishGame_def
        selectOperation_def selectTarget_def selectDuration_def Let_def split: option.splits)

lemma inputBounded_step: "inputBounded s \<Longrightarrow> inputBounded (step s e)"
proof (cases e)
  case (Press k now)
  assume "inputBounded s"
  then show ?thesis
    unfolding Press
    by (auto simp: inputBounded_def handleInput_def processAnswer_def Let_def currentQ_def length_keyStr nth_append
        split: option.splits if_splits)
next
  case (TimeUp now)
  assume "inputBounded s"
  then show ?thesis
    unfolding TimeUp
    by (auto simp: inputBounded_def processAnswer_def Let_def currentQ_def nth_append
        split: option.splits if_splits)
next
  case (TimeoutFires n now)
  assume "inputBounded s"
  then show ?thesis
    unfolding TimeoutFires
    by (auto simp: inputBounded_def nextQuestion_def finishGame_def Let_def currentQ_def toString_nonempty
        split: option.splits if_splits)
next
  case DeletePress
  assume "inputBounded s"
  then show ?thesis
    unfolding DeletePress
    by (auto simp: inputBounded_def handleDelete_def currentQ_def split: option.splits if_splits)
next
  case (StartGame rs clock now)
  show ?thesis
    unfolding StartGame
    by (auto simp: inputBounded_def startGame_def currentQ_def toString_nonempty Let_def split: option.splits)
next
  case (StartReview now)
  assume "inputBounded s"
  then show ?thesis
    unfolding StartReview
    by (auto simp: inputBounded_def startReview_def startGame_def currentQ_def toString_nonempty Let_def
        split: option.splits if_splits)
qed (auto simp: inputBounded_def currentQ_def selectOperation_def selectTarget_def selectDuration_def)

lemma foldl_invariant:
  assumes "P a" and "\<And>b x. P b \<Longrightarrow> x \<in> set xs \<Longrightarrow> P (f b x)"
  shows "P (foldl f a xs)"
  using assms by (induction xs arbitrary: a) auto

lemma set_AList_update:
  "(a, b) \<in> set (AList.update k v al) \<Longrightarrow> (a, b) = (k, v) \<or> (a, b) \<in> set al"
  by (induction al) (auto split: if_splits)

lemma reviewWrongQuestionsMap_values:
  "\<forall>(k, v) \<in> set (reviewWrongQuestionsMap queue). userAnswer v = None"
  unfolding reviewWrongQuestionsMap_def
  by (rule foldl_invariant) (auto simp: map_set_def dest!: set_AList_update)

lemma resultsWrongQuestionsMap_values:
  "\<forall>(k, v) \<in> set (resultsWrongQuestionsMap queue). answeredWrong v \<and> v \<in> set queue \<and> k = id_q v"
  unfolding resultsWrongQuestionsMap_def
  by (rule foldl_invariant) (auto simp: map_set_def dest!: set_AList_update)

lemma resultsWrongQuestions_answered:
  "q \<in> set (resultsWrongQuestions queue) \<Longrightarrow> answeredWrong q \<and> q \<in> set queue"
  using resultsWrongQuestionsMap_values [of queue]
  by (auto simp: resultsWrongQuestions_def)

lemma generateQuestionBatch_unanswered:
  "q \<in> set (generateQuestionBatch opn target count rs clock) \<Longrightarrow> userAnswer q = None"
proof -
  assume "q \<in> set (generateQuestionBatch opn target count rs clock)"
  from generateQuestionBatch_member [OF this]
  obtain j k' where "q = fst (generateQuestion opn target rs clock j k')" by blast
  then show ?thesis by (simp add: generateQuestion_fresh)
qed

lemma generateQuestionBatch_nth_unanswered:
  "j < length (generateQuestionBatch opn target count rs clock) \<Longrightarrow>
   userAnswer (generateQuestionBatch opn target count rs clock ! j) = None"
  by (rule generateQuestionBatch_unanswered) (rule nth_mem)

lemma unansweredAhead_step: "unansweredAhead s \<Longrightarrow> unansweredAhead (step s e)"
proof (cases e)
  case (Press k now)
  assume "unansweredAhead s"
  then show ?thesis
    unfolding Press
    by (auto simp: unansweredAhead_def handleInput_def processAnswer_def Let_def currentQ_def
          nth_append nth_list_update retryQ_def split: option.splits if_splits)
next
  case (TimeUp now)
  assume "unansweredAhead s"
  then show ?thesis
    unfolding TimeUp
    by (auto simp: unansweredAhead_def processAnswer_def Let_def currentQ_def nth_append retryQ_def
        split: option.splits if_splits)
next
  case (TimeoutFires n now)
  assume "unansweredAhead s"
  then show ?thesis
    unfolding TimeoutFires
    by (auto simp: unansweredAhead_def nextQuestion_def finishGame_def Let_def)
next
  case DeletePress
  assume "unansweredAhead s"
  then show ?thesis
    unfolding DeletePress by (auto simp: unansweredAhead_def handleDelete_def)
next
  case (StartGame rs clock now)
  show ?thesis
    unfolding StartGame
    by (auto simp: unansweredAhead_def startGame_def Let_def generateQuestionBatch_nth_unanswered)
next
  case (StartReview now)
  assume a: "unansweredAhead s"
  have "\<And>j. j < length (reviewWrongQuestionsMap (questionQueue s)) \<Longrightarrow>
          userAnswer (snd (reviewWrongQuestionsMap (questionQueue s) ! j)) = None"
    using reviewWrongQuestionsMap_values [of "questionQueue s"]
    by (metis (mono_tags, lifting) case_prod_beta nth_mem)
  with a show ?thesis
    unfolding StartReview
    by (auto simp: unansweredAhead_def startReview_def startGame_def Let_def)
qed (auto simp: unansweredAhead_def selectOperation_def selectTarget_def selectDuration_def)

lemma reachable_invariants: "reachable s \<Longrightarrow> inputBounded s \<and> unansweredAhead s"
proof (induction rule: reachable.induct)
  case reachable_init
  show ?case
    by (simp add: inputBounded_def unansweredAhead_def initialApp_def currentQ_def)
next
  case (reachable_step s e)
  then show ?case
    by (simp add: inputBounded_step unansweredAhead_step)
qed

lemma isCorrect_Some: "isCorrect cq (Some v) t = (\<not> t \<and> v = correctAnswer cq)"
  by (simp add: isCorrect_def)

lemma isCorrect_timeout: "\<not> isCorrect cq userVal True"
  by (simp add: isCorrect_def)

lemma processAnswer_correct:
  assumes "currentQ s = Some cq" and "isCorrect cq userVal isTimeout"
  shows "processAnswer s userVal isTimeout now =
     s\<lparr> feedback := Some Correct,
        sessionStats := (sessionStats s)\<lparr> correctCount := correctCount (sessionStats s) + 1 \<rparr>,
        timeouts := timeouts s @
          [\<lparr> cl_questionQueue = questionQueue s, cl_currentQIndex = currentQIndex s \<rparr>] \<rparr>"
  using assms by (simp add: processAnswer_def)

lemma processAnswer_wrong:
  assumes "currentQ s = Some cq" and "\<not> isCorrect cq userVal isTimeout"
  shows "processAnswer s userVal isTimeout now =
     s\<lparr> feedback := Some (if isTimeout then Timeout else Wrong),
        sessionStats := (sessionStats s)\<lparr> wrongCount := wrongCount (sessionStats s) + 1 \<rparr>,
        questionQueue := questionQueue s @ [retryQ cq now],
        timeouts := timeouts s @
          [\<lparr> cl_questionQueue = questionQueue s, cl_currentQIndex = currentQIndex s \<rparr>] \<rparr>"
  using assms by (simp add: processAnswer_def)

section \<open>Sessions\<close>

lemma reachable_session0: "reachable session0"
  unfolding session0_def
  by (rule reachable_step [OF reachable_init]) (simp add: initialApp_def)

lemma currentQ_session0:
  "currentQ session0 =
     Some \<lparr> id_q = ''q-0-0'', num1 = 1, num2 = 1, operation = MULTIPLICATION, correctAnswer = 1,
            userAnswer = None, isRetry = False \<rparr>"
  by code_simp

lemma run_Nil [simp]: "run s [] = s"
  by (simp add: run_def)

lemma run_Cons [simp]: "run s (e # evs) = run (step s e) evs"
  by (simp add: run_def)

lemma run_counts:
  assumes "\<forall>e \<in> set evs. inSession e"
  shows "length (questionQueue (run s evs)) + wrongCount (sessionStats s) =
           length (questionQueue s) + wrongCount (sessionStats (run s evs)) \<and>
         correctCount (sessionStats (run s evs)) + wrongCount (sessionStats (run s evs)) =
           correctCount (sessionStats s) + wrongCount (sessionStats s) + submissions s evs"
  using assms
proof (induction evs arbitrary: s)
  case Nil
  show ?case by simp
next
  case (Cons e evs)
  from Cons.prems have e: "inSession e" and rest: "\<forall>x \<in> set evs. inSession x" by auto
  from Cons.IH [OF rest, of "step s e"] step_counts_queue [OF e, of s] step_counts_submissions [OF e, of s]
  show ?case by simp
qed

lemma run_keeps_total:
  assumes "\<forall>e \<in> set evs. \<not> startsSession e"
  shows "totalQuestions (sessionStats (run s evs)) = totalQuestions (sessionStats s) \<and>
         startTime (sessionStats (run s evs)) = startTime (sessionStats s)"
  using assms
proof (induction evs arbitrary: s)
  case Nil
  show ?case by simp
next
  case (Cons e evs)
  from Cons.prems have e: "\<not> startsSession e" and rest: "\<forall>x \<in> set evs. \<not> startsSession x" by auto
  from Cons.IH [OF rest, of "step s e"] step_keeps_total [OF e, of s]
  show ?case by simp
qed

lemma session_counts:
  assumes "\<forall>e \<in> set evs. inSession e"
  shows "length (questionQueue (run (startGame s customQueue batch now) evs)) =
           length (questionQueue (startGame s customQueue batch now)) +
           wrongCount (sessionStats (run (startGame s customQueue batch now) evs)) \<and>
         correctCount (sessionStats (run (startGame s customQueue batch now) evs)) +
           wrongCount (sessionStats (run (startGame s customQueue batch now) evs)) =
           submissions (startGame s customQueue batch now) evs"
  using run_counts [OF assms, of "startGame s customQueue batch now"]
  by (simp add: startGame_def Let_def)

text \<open>
  Claim C1. In every run of a started session, the queue has grown by one entry per
  wrong submission and \<open>correctCount + wrongCount\<close> is the number of submissions
  (lemma \<open>session_counts\<close>). The number of submissions of a completed session need
  not be \<open>N + W\<close>, though. \<open>nextQuestion\<close> compares the index with the length of the
  queue of its render, in which the retry is not yet pushed: after a wrong answer to
  the last question of the queue it calls \<open>finishGame\<close>, and the retry is never asked.
  Here the ten questions of \<open>session0\<close> are answered, the last one wrongly: the session
  is complete with \<open>N = 10\<close>, \<open>W = 1\<close> and a queue of 11, after 10 submissions.
\<close>

theorem last_question_wrong_ends_session:
  "runEnabled session0 lastWrong \<and>
   gameState (run session0 lastWrong) = RESULTS \<and>
   totalQuestions (sessionStats (run session0 lastWrong)) = 10 \<and>
   wrongCount (sessionStats (run session0 lastWrong)) = 1 \<and>
   correctCount (sessionStats (run session0 lastWrong)) = 9 \<and>
   submissions session0 lastWrong = 10 \<and>
   length (questionQueue (run session0 lastWrong)) = 11 \<and>
   currentQIndex (run session0 lastWrong) = 9 \<and>
   last (questionQueue (run session0 lastWrong)) =
     \<lparr> id_q = ''q-0-9-retry-6'', num1 = 1, num2 = 1, operation = MULTIPLICATION, correctAnswer = 1,
       userAnswer = None, isRetry = True \<rparr>"
  by code_simp

text \<open>
  Claim C3. The derivation looks the map up under the id stripped at \<open>-retry\<close>, but
  stores the question under its full id. When the first attempt at a question timed
  out (no answer recorded), no entry is ever stored under the stripped id, and every
  retry answered wrongly is listed. In this session the questions \<open>q-0-0\<close> and \<open>q-0-1\<close>
  time out; the first two retries of \<open>q-0-0\<close> and the first retry of \<open>q-0-1\<close> are
  answered wrongly: the results list and the review batch hold three entries, two of
  them for \<open>q-0-0\<close>.
\<close>

theorem retries_after_timeout_listed_twice:
  "runEnabled session0 twoFailedRetries \<and>
   gameState (run session0 twoFailedRetries) = RESULTS \<and>
   map (\<lambda>q. (id_q q, userAnswer q)) (questionQueue (run session0 twoFailedRetries)) =
     [(''q-0-0'', None), (''q-0-1'', None), (''q-0-2'', Some 1), (''q-0-3'', Some 1),
      (''q-0-4'', Some 1), (''q-0-5'', Some 1), (''q-0-6'', Some 1), (''q-0-7'', Some 1),
      (''q-0-8'', Some 1), (''q-0-9'', Some 1), (''q-0-0-retry-1'', Some 2),
      (''q-0-1-retry-2'', Some 2), (''q-0-0-retry-1-retry-4'', Some 2),
      (''q-0-1-retry-2-retry-5'', Some 1), (''q-0-0-retry-1-retry-4-retry-6'', Some 1)] \<and>
   map id_q (resultsWrongQuestions (questionQueue (run session0 twoFailedRetries))) =
     [''q-0-0-retry-1'', ''q-0-1-retry-2'', ''q-0-0-retry-1-retry-4''] \<and>
   map (baseId \<circ> id_q) (resultsWrongQuestions (questionQueue (run session0 twoFailedRetries))) =
     [''q-0-0'', ''q-0-1'', ''q-0-0''] \<and>
   map id_q (questionQueue (step (run session0 twoFailedRetries) (StartReview 9))) =
     [''review-q-0-0-retry-1'', ''review-q-0-1-retry-2'', ''review-q-0-0-retry-1-retry-4'']"
  by code_simp

section \<open>The ids of the retries\<close>






















section \<open>Scoring an answer\<close>



text \<open>
  Claim C7. When the key that completes the digits makes the input the correct answer,
  \<open>correctCount\<close> grows by 1 and the queue keeps its length and its entries: only the
  \<open>userAnswer\<close> of the current question is written.
\<close>

theorem correct_answer_keeps_queue:
  assumes cur: "currentQ s = Some cq"
    and fb: "feedback s = None"
    and len: "length (userInput s) < length (toString (correctAnswer cq))"
    and full: "length (userInput s @ num) = length (toString (correctAnswer cq))"
    and ok: "parseInt (userInput s @ num) = correctAnswer cq"
  shows "let s' = handleInput s num now in
           feedback s' = Some Correct \<and>
           correctCount (sessionStats s') = correctCount (sessionStats s) + 1 \<and>
           wrongCount (sessionStats s') = wrongCount (sessionStats s) \<and>
           length (questionQueue s') = length (questionQueue s) \<and>
           questionQueue s' =
             (questionQueue s)[currentQIndex s := cq\<lparr> userAnswer := Some (correctAnswer cq) \<rparr>] \<and>
           (\<forall>j < length (questionQueue s). j \<noteq> currentQIndex s \<longrightarrow>
              questionQueue s' ! j = questionQueue s ! j) \<and>
           (questionQueue s' ! currentQIndex s)\<lparr> userAnswer := userAnswer cq \<rparr> = cq"
proof -
  let ?s2 = "s\<lparr> userInput := userInput s @ num,
               questionQueue := (questionQueue s)[currentQIndex s := cq\<lparr> userAnswer := Some (correctAnswer cq) \<rparr>] \<rparr>"
  have idx: "currentQIndex s < length (questionQueue s)"
    using cur by (simp add: currentQ_Some_iff)
  have cur2: "currentQ ?s2 = Some (cq\<lparr> userAnswer := Some (correctAnswer cq) \<rparr>)"
    using idx by (simp add: currentQ_def)
  have c2: "isCorrect (cq\<lparr> userAnswer := Some (correctAnswer cq) \<rparr>) (Some (correctAnswer cq)) False"
    by (simp add: isCorrect_def)
  have h: "handleInput s num now = processAnswer ?s2 (Some (correctAnswer cq)) False now"
    using cur fb len full ok by (simp add: handleInput_def Let_def)
  show ?thesis
    using idx by (simp add: h processAnswer_correct [OF cur2 c2] Let_def)
qed

theorem correct_answer_keeps_queue_witness:
  "currentQ session0 =
     Some \<lparr> id_q = ''q-0-0'', num1 = 1, num2 = 1, operation = MULTIPLICATION, correctAnswer = 1,
            userAnswer = None, isRetry = False \<rparr> \<and>
   feedback session0 = None \<and>
   length (userInput session0) < length (toString 1) \<and>
   length (userInput session0 @ ''1'') = length (toString 1) \<and>
   parseInt (userInput session0 @ ''1'') = 1 \<and>
   correctCount (sessionStats (handleInput session0 ''1'' 5)) = 1 \<and>
   length (questionQueue (handleInput session0 ''1'' 5)) = 10"
proof -
  have fb: "feedback session0 = None" by code_simp
  have len: "length (userInput session0) < length (toString 1)" by code_simp
  have full: "length (userInput session0 @ ''1'') = length (toString 1)" by code_simp
  have ok: "parseInt (userInput session0 @ ''1'') = 1" by code_simp
  have c0: "correctCount (sessionStats session0) = 0" and l0: "length (questionQueue session0) = 10"
    by code_simp+
  from correct_answer_keeps_queue [OF currentQ_session0 fb, of "''1''" 5] len full ok
  have "let s' = handleInput session0 ''1'' 5 in
          correctCount (sessionStats s') = correctCount (sessionStats session0) + 1 \<and>
          length (questionQueue s') = length (questionQueue session0)"
    by (simp add: Let_def)
  then show ?thesis
    using fb len full ok by (simp add: currentQ_session0 Let_def c0 l0)
qed

section \<open>Total and average\<close>

lemma startGame_stats:
  "totalQuestions (sessionStats (startGame s customQueue batch now)) =
     length (questionQueue (startGame s customQueue batch now)) \<and>
   startTime (sessionStats (startGame s customQueue batch now)) = now"
  by (simp add: startGame_def Let_def)

text \<open>
  Claim C8. \<open>startGame\<close> sets \<open>totalQuestions\<close> to the length of the initial queue, and
  no event of the session changes it, whatever number of retries is appended; the
  average time shown on the results screen is \<open>(endTime - startTime) / totalQuestions\<close>
  with that initial total (the screen shows it in seconds, hence the division by 1000).
\<close>

theorem totalQuestions_fixed_at_start:
  assumes "\<forall>e \<in> set evs. \<not> startsSession e"
  shows "totalQuestions (sessionStats (startGame s customQueue batch now)) =
           length (questionQueue (startGame s customQueue batch now)) \<and>
         totalQuestions (sessionStats (run (startGame s customQueue batch now) evs)) =
           length (questionQueue (startGame s customQueue batch now)) \<and>
         avgTime (run (startGame s customQueue batch now) evs) =
           (if length (questionQueue (startGame s customQueue batch now)) = 0 then None
            else Some
              ((real_of_int (endTime (sessionStats (run (startGame s customQueue batch now) evs)) - now) /
                real (length (questionQueue (startGame s customQueue batch now)))) / 1000))"
  using run_keeps_total [OF assms, of "startGame s customQueue batch now"]
    startGame_stats [of s customQueue batch now]
  by (simp add: avgTime_def duration_def)

theorem totalQuestions_fixed_at_start_witness:
  "list_all (\<lambda>e. \<not> startsSession e) oneRetry \<and>
   session0 = startGame initialApp None (generateQuestionBatch MULTIPLICATION None 10 rsZero clock0) 0 \<and>
   length (questionQueue session0) = 10 \<and>
   gameState (run session0 oneRetry) = RESULTS \<and>
   totalQuestions (sessionStats (run session0 oneRetry)) = 10 \<and>
   length (questionQueue (run session0 oneRetry)) = 11 \<and>
   submissions session0 oneRetry = 11 \<and>
   endTime (sessionStats (run session0 oneRetry)) = 7 \<and>
   avgTime (run session0 oneRetry) = Some ((7 / 10) / 1000)"
proof -
  have h: "\<forall>e \<in> set oneRetry. \<not> startsSession e" by code_simp
  have s: "session0 =
      startGame initialApp None (generateQuestionBatch MULTIPLICATION None 10 rsZero clock0) 0"
    by (simp add: session0_def initialApp_def)
  have l: "length (questionQueue session0) = 10"
    and g: "gameState (run session0 oneRetry) = RESULTS"
    and l2: "length (questionQueue (run session0 oneRetry)) = 11"
    and sub: "submissions session0 oneRetry = 11"
    and e: "endTime (sessionStats (run session0 oneRetry)) = 7"
    by code_simp+
  from totalQuestions_fixed_at_start [OF h, of initialApp None
      "generateQuestionBatch MULTIPLICATION None 10 rsZero clock0" 0]
  show ?thesis
    using h l g l2 sub e unfolding s [symmetric] by (simp add: list_all_iff)
qed

section \<open>The input buffer\<close>

text \<open>
  Claim C9. In every reachable state with a current question, the input buffer is not
  longer than the decimal string of the correct answer, and it is shorter while no
  feedback is shown. The key that brings the buffer to that length has the buffer
  parsed and \<open>processAnswer\<close> called in the same handler; any other key is only
  appended.
\<close>

theorem input_capped_and_auto_submitted:
  assumes "reachable s" and cur: "currentQ s = Some cq"
  shows "length (userInput s) \<le> length (toString (correctAnswer cq)) \<and>
         (feedback s = None \<longrightarrow> length (userInput s) < length (toString (correctAnswer cq))) \<and>
         (\<forall>k now. feedback s = None \<longrightarrow>
            (let nextInput = userInput s @ keyStr k in
             if length nextInput = length (toString (correctAnswer cq))
             then submits s (Press k now) \<and>
                  step s (Press k now) =
                    processAnswer
                      (s\<lparr> userInput := nextInput,
                          questionQueue := (questionQueue s)
                            [currentQIndex s := cq\<lparr> userAnswer := Some (parseInt nextInput) \<rparr>] \<rparr>)
                      (Some (parseInt nextInput)) False now \<and>
                  feedback (step s (Press k now)) =
                    Some (if parseInt nextInput = correctAnswer cq then Correct else Wrong)
             else \<not> submits s (Press k now) \<and>
                  step s (Press k now) = s\<lparr> userInput := nextInput \<rparr>))"
proof -
  from reachable_invariants [OF assms(1)] cur
  have b: "length (userInput s) \<le> length (toString (correctAnswer cq))"
    and c: "feedback s = None \<longrightarrow> length (userInput s) < length (toString (correctAnswer cq))"
    by (simp_all add: inputBounded_def)
  have idx: "currentQIndex s < length (questionQueue s)"
    using cur by (simp add: currentQ_Some_iff)
  have d: "\<forall>k now. feedback s = None \<longrightarrow>
            (let nextInput = userInput s @ keyStr k in
             if length nextInput = length (toString (correctAnswer cq))
             then submits s (Press k now) \<and>
                  step s (Press k now) =
                    processAnswer
                      (s\<lparr> userInput := nextInput,
                          questionQueue := (questionQueue s)
                            [currentQIndex s := cq\<lparr> userAnswer := Some (parseInt nextInput) \<rparr>] \<rparr>)
                      (Some (parseInt nextInput)) False now \<and>
                  feedback (step s (Press k now)) =
                    Some (if parseInt nextInput = correctAnswer cq then Correct else Wrong)
             else \<not> submits s (Press k now) \<and>
                  step s (Press k now) = s\<lparr> userInput := nextInput \<rparr>)"
  proof (intro allI impI)
    fix k now
    assume fb: "feedback s = None"
    with c have lt: "length (userInput s) < length (toString (correctAnswer cq))" by simp
    let ?n = "userInput s @ keyStr k"
    let ?s2 = "s\<lparr> userInput := ?n,
                 questionQueue := (questionQueue s)
                   [currentQIndex s := cq\<lparr> userAnswer := Some (parseInt ?n) \<rparr>] \<rparr>"
    have cur2: "currentQ ?s2 = Some (cq\<lparr> userAnswer := Some (parseInt ?n) \<rparr>)"
      using idx by (simp add: currentQ_def)
    show "let nextInput = userInput s @ keyStr k in
             if length nextInput = length (toString (correctAnswer cq))
             then submits s (Press k now) \<and>
                  step s (Press k now) =
                    processAnswer
                      (s\<lparr> userInput := nextInput,
                          questionQueue := (questionQueue s)
                            [currentQIndex s := cq\<lparr> userAnswer := Some (parseInt nextInput) \<rparr>] \<rparr>)
                      (Some (parseInt nextInput)) False now \<and>
                  feedback (step s (Press k now)) =
                    Some (if parseInt nextInput = correctAnswer cq then Correct else Wrong)
             else \<not> submits s (Press k now) \<and>
                  step s (Press k now) = s\<lparr> userInput := nextInput \<rparr>"
    proof (cases "length ?n = length (toString (correctAnswer cq))")
      case True
      have st: "step s (Press k now) = processAnswer ?s2 (Some (parseInt ?n)) False now"
        using cur fb lt True by (simp add: handleInput_def Let_def)
      have f: "feedback (processAnswer ?s2 (Some (parseInt ?n)) False now) =
                 Some (if parseInt ?n = correctAnswer cq then Correct else Wrong)"
        using cur2 by (simp add: processAnswer_def isCorrect_def Let_def)
      have sb: "submits s (Press k now)"
        using cur fb True by simp
      from True st f sb show ?thesis by (simp add: Let_def)
    next
      case False
      have st: "step s (Press k now) = s\<lparr> userInput := ?n \<rparr>"
        using cur fb lt False by (simp add: handleInput_def Let_def)
      have sb: "\<not> submits s (Press k now)"
        using cur False by simp
      from False st sb show ?thesis by (simp add: Let_def)
    qed
  qed
  from b c d show ?thesis by blast
qed

theorem input_capped_and_auto_submitted_witness:
  "reachable session0 \<and>
   currentQ session0 =
     Some \<lparr> id_q = ''q-0-0'', num1 = 1, num2 = 1, operation = MULTIPLICATION, correctAnswer = 1,
            userAnswer = None, isRetry = False \<rparr> \<and>
   length (userInput session0) \<le> length (toString 1) \<and>
   feedback session0 = None \<and>
   feedback (step session0 (Press K2 5)) = Some Wrong"
proof -
  let ?cq = "\<lparr> id_q = ''q-0-0'', num1 = 1, num2 = 1, operation = MULTIPLICATION, correctAnswer = 1,
            userAnswer = None, isRetry = False \<rparr>"
  have fb: "feedback session0 = None" by code_simp
  have l: "length (userInput session0 @ keyStr K2) = length (toString (correctAnswer ?cq))"
    by code_simp
  have p: "parseInt (userInput session0 @ keyStr K2) \<noteq> correctAnswer ?cq"
    by code_simp
  note t = input_capped_and_auto_submitted [OF reachable_session0 currentQ_session0]
  from t have a: "length (userInput session0) \<le> length (toString 1)" by simp
  note u = t [THEN conjunct2, THEN conjunct2, THEN spec [where x = K2], THEN spec [where x = 5],
      THEN mp, OF fb]
  note w = u [unfolded Let_def if_P [OF l], THEN conjunct2, THEN conjunct2,
      unfolded if_not_P [OF p]]
  from w a fb show ?thesis
    by (simp add: reachable_session0 currentQ_session0)
qed

section \<open>Timeouts and the review\<close>

lemma resultsWrongQuestionsMap_skip:
  "\<not> answeredWrong q \<Longrightarrow>
   resultsWrongQuestionsMap (xs @ q # ys) = resultsWrongQuestionsMap (xs @ ys)"
  by (simp add: resultsWrongQuestionsMap_def)

lemma reviewWrongQuestionsMap_skip:
  "\<not> answeredWrong q \<Longrightarrow>
   reviewWrongQuestionsMap (xs @ q # ys) = reviewWrongQuestionsMap (xs @ ys)"
  by (simp add: reviewWrongQuestionsMap_def)

lemma dropNth_split: "i < length xs \<Longrightarrow> xs = take i xs @ xs ! i # drop (Suc i) xs"
  by (simp add: id_take_nth_drop)

text \<open>
  Claim C10. When the countdown ends on the play screen before the digits are
  complete, the current question has no \<open>userAnswer\<close> and keeps none: the timeout is
  counted as wrong and a retry is appended, but both derivations of the review set
  skip the question (they give what they would give for the queue without it).
\<close>

theorem timed_out_question_not_reviewed:
  assumes r: "reachable s" and g: "gameState s = PLAYING" and fb: "feedback s = None"
    and cur: "currentQ s = Some cq"
  shows "userAnswer cq = None \<and>
         length (userInput s) < length (toString (correctAnswer cq)) \<and>
         (let s' = step s (TimeUp now); i = currentQIndex s in
            feedback s' = Some Timeout \<and>
            wrongCount (sessionStats s') = wrongCount (sessionStats s) + 1 \<and>
            questionQueue s' = questionQueue s @ [retryQ cq now] \<and>
            questionQueue s' ! i = cq \<and>
            userAnswer (questionQueue s' ! i) = None \<and>
            questionQueue s' ! i \<notin> set (resultsWrongQuestions (questionQueue s')) \<and>
            resultsWrongQuestionsMap (questionQueue s') =
              resultsWrongQuestionsMap (dropNth i (questionQueue s')) \<and>
            reviewWrongQuestionsMap (questionQueue s') =
              reviewWrongQuestionsMap (dropNth i (questionQueue s')))"
proof -
  have idx: "currentQIndex s < length (questionQueue s)" and cq: "cq = questionQueue s ! currentQIndex s"
    using cur by (simp_all add: currentQ_Some_iff)
  from reachable_invariants [OF r] have ib: "inputBounded s" and ua: "unansweredAhead s"
    by simp_all
  from ua idx fb g cq have none: "userAnswer cq = None"
    by (simp add: unansweredAhead_def)
  from ib cur fb have short: "length (userInput s) < length (toString (correctAnswer cq))"
    by (simp add: inputBounded_def)
  let ?s' = "processAnswer s None True now"
  let ?i = "currentQIndex s"
  have st: "?s' = s\<lparr> feedback := Some Timeout,
        sessionStats := (sessionStats s)\<lparr> wrongCount := wrongCount (sessionStats s) + 1 \<rparr>,
        questionQueue := questionQueue s @ [retryQ cq now],
        timeouts := timeouts s @
          [\<lparr> cl_questionQueue = questionQueue s, cl_currentQIndex = currentQIndex s \<rparr>] \<rparr>"
    using processAnswer_wrong [OF cur isCorrect_timeout, of None now] by simp
  have q: "questionQueue ?s' = questionQueue s @ [retryQ cq now]"
    by (simp add: st)
  have at: "questionQueue ?s' ! ?i = cq"
    using idx cq by (simp add: q nth_append)
  have nw: "\<not> answeredWrong cq"
    using none by (simp add: answeredWrong_def)
  have notin: "questionQueue ?s' ! ?i \<notin> set (resultsWrongQuestions (questionQueue ?s'))"
    using resultsWrongQuestions_answered [of cq "questionQueue ?s'"] nw at by auto
  have i': "?i < length (questionQueue ?s')"
    using idx by (simp add: q)
  have split: "questionQueue ?s' = take ?i (questionQueue ?s') @ cq # drop (Suc ?i) (questionQueue ?s')"
    using dropNth_split [OF i'] at by simp
  have m1: "resultsWrongQuestionsMap (questionQueue ?s') =
              resultsWrongQuestionsMap (dropNth ?i (questionQueue ?s'))"
    using resultsWrongQuestionsMap_skip [OF nw, of "take ?i (questionQueue ?s')" "drop (Suc ?i) (questionQueue ?s')"]
      split by (simp add: dropNth_def)
  have m2: "reviewWrongQuestionsMap (questionQueue ?s') =
              reviewWrongQuestionsMap (dropNth ?i (questionQueue ?s'))"
    using reviewWrongQuestionsMap_skip [OF nw, of "take ?i (questionQueue ?s')" "drop (Suc ?i) (questionQueue ?s')"]
      split by (simp add: dropNth_def)
  have f: "feedback ?s' = Some Timeout" and w: "wrongCount (sessionStats ?s') = wrongCount (sessionStats s) + 1"
    by (simp_all add: st)
  from none short f w q at notin m1 m2 show ?thesis
    by (simp add: Let_def)
qed

theorem timed_out_question_not_reviewed_witness:
  "reachable session0 \<and> gameState session0 = PLAYING \<and> feedback session0 = None \<and>
   currentQ session0 =
     Some \<lparr> id_q = ''q-0-0'', num1 = 1, num2 = 1, operation = MULTIPLICATION, correctAnswer = 1,
            userAnswer = None, isRetry = False \<rparr> \<and>
   userAnswer (questionQueue (step session0 (TimeUp 5)) ! currentQIndex session0) = None \<and>
   wrongCount (sessionStats (step session0 (TimeUp 5))) = wrongCount (sessionStats session0) + 1 \<and>
   resultsWrongQuestionsMap (questionQueue (step session0 (TimeUp 5))) =
     resultsWrongQuestionsMap (dropNth (currentQIndex session0) (questionQueue (step session0 (TimeUp 5))))"
proof -
  have g: "gameState session0 = PLAYING" and fb: "feedback session0 = None"
    by code_simp+
  note t = timed_out_question_not_reviewed [OF reachable_session0 g fb currentQ_session0, of 5,
      unfolded Let_def]
  from t g fb reachable_session0 currentQ_session0 show ?thesis
    by blast
qed

section \<open>Pending timeouts\<close>

text \<open>
  Claim C4, as stated, fails. The player answers the first question and leaves for
  the menu within the feedback delay: the timeout is still pending on the menu screen,
  and when it runs it moves the index on. After the last question, it completes the
  session and replaces the menu by the results screen.
\<close>

theorem stale_feedback_delay_counterexample:
  "runEnabled session0 answerAndExit \<and>
   gameState (run session0 answerAndExit) = MENU \<and>
   length (timeouts (run session0 answerAndExit)) = 1 \<and>
   currentQIndex (run session0 answerAndExit) = 0 \<and>
   enabled (run session0 answerAndExit) (TimeoutFires 0 6) \<and>
   currentQIndex (step (run session0 answerAndExit) (TimeoutFires 0 6)) = 1 \<and>
   runEnabled session0 (nineCorrect @ answerAndExit) \<and>
   gameState (run session0 (nineCorrect @ answerAndExit)) = MENU \<and>
   gameState (step (run session0 (nineCorrect @ answerAndExit)) (TimeoutFires 0 6)) = RESULTS"
  by code_simp

lemma step_keeps_timeouts:
  assumes "\<forall>n now. e \<noteq> TimeoutFires n now"
  shows "prefix (timeouts s) (timeouts (step s e))"
  using assms
  by (cases e)
     (auto simp: handleInput_def handleDelete_def processAnswer_def startGame_def startReview_def
        selectOperation_def selectTarget_def selectDuration_def Let_def split: option.splits)

text \<open>
  Claim C4, amended. No pending feedback delay is ever cancelled: every event other
  than the run of a timeout keeps all pending timeouts (leaving for the menu changes
  \<open>gameState\<close> only), and a timeout that runs removes itself only, clears the feedback
  and the input buffer and then either completes the session or increments the index
  of the state it runs in. The \<open>onTimeUp\<close> of the countdown is delivered only on the play
  screen while no feedback is shown.
\<close>

theorem feedback_delay_never_cancelled:
  "(\<forall>e. (\<forall>n now. e \<noteq> TimeoutFires n now) \<longrightarrow> prefix (timeouts s) (timeouts (step s e))) \<and>
   step s ExitToMenu = s\<lparr> gameState := MENU \<rparr> \<and>
   (\<forall>n now. n < length (timeouts s) \<longrightarrow>
      (let s' = step s (TimeoutFires n now) in
         timeouts s' = dropNth n (timeouts s) \<and> feedback s' = None \<and> userInput s' = [] \<and>
         questionQueue s' = questionQueue s \<and>
         (if int (cl_currentQIndex (timeouts s ! n)) \<ge> int (length (cl_questionQueue (timeouts s ! n))) - 1
          then gameState s' = RESULTS \<and> currentQIndex s' = currentQIndex s
          else gameState s' = gameState s \<and> currentQIndex s' = currentQIndex s + 1))) \<and>
   (\<forall>now. enabled s (TimeUp now) \<longrightarrow> gameState s = PLAYING \<and> feedback s = None)"
  by (auto simp: step_keeps_timeouts nextQuestion_def finishGame_def Let_def)

theorem feedback_delay_never_cancelled_witness:
  "length (timeouts (run session0 [Press K1 5])) = 1 \<and>
   prefix (timeouts (run session0 [Press K1 5])) (timeouts (step (run session0 [Press K1 5]) ExitToMenu)) \<and>
   gameState (step (run session0 [Press K1 5]) ExitToMenu) = MENU \<and>
   timeouts (step (run session0 answerAndExit) (TimeoutFires 0 6)) = [] \<and>
   currentQIndex (step (run session0 answerAndExit) (TimeoutFires 0 6)) = 1 \<and>
   enabled session0 (TimeUp 5) \<and> gameState session0 = PLAYING \<and> feedback session0 = None"
proof -
  let ?a = "run session0 [Press K1 5]"
  let ?b = "run session0 answerAndExit"
  have l: "length (timeouts ?a) = 1" and lb: "0 < length (timeouts ?b)"
    and en: "enabled session0 (TimeUp 5)"
    and i: "currentQIndex ?b = 0"
    and d: "dropNth 0 (timeouts ?b) = []"
    and c: "\<not> int (cl_currentQIndex (timeouts ?b ! 0)) \<ge> int (length (cl_questionQueue (timeouts ?b ! 0))) - 1"
    by code_simp+
  have ne: "\<forall>n now. ExitToMenu \<noteq> TimeoutFires n now"
    by simp
  note t1 = feedback_delay_never_cancelled [of ?a, THEN conjunct1, THEN spec [where x = ExitToMenu], THEN mp, OF ne]
  note t2 = feedback_delay_never_cancelled [of ?a, THEN conjunct2, THEN conjunct1]
  note t3 = feedback_delay_never_cancelled [of ?b, THEN conjunct2, THEN conjunct2, THEN conjunct1,
      THEN spec [where x = 0], THEN spec [where x = 6], THEN mp, OF lb, unfolded Let_def if_not_P [OF c]]
  note t4 = feedback_delay_never_cancelled [of session0, THEN conjunct2, THEN conjunct2, THEN conjunct2,
      THEN spec [where x = 5], THEN mp, OF en]
  from l t1 t2 t3 t4 en i d show ?thesis
    by simp
qed

end
